theory Spec2Isabelle
  imports Main "HOL-Library.AList"
begin

section \<open>The file cache of \<open>ldx/ext/cache.py\<close>\<close>

text \<open>
  The module keeps two class-level dictionaries, \<open>_opened_files\<close> (path to parsed
  JSON) and \<open>_opened_meta\<close> (path to \<open>FileMeta\<close>), and an integer \<open>_total_cached\<close>.
  \<open>_loadFile\<close> answers from the dictionaries when the stored mtime equals the file's
  current mtime and calls \<open>__real_load__\<close> otherwise, which evicts the least accessed
  entries when the cache is full and then reads and parses the file.
\<close>

subsection \<open>Python dictionaries\<close>

text \<open>
  A Python \<open>dict\<close> iterates in insertion order: assigning to a key that is present
  keeps the key's position, assigning to a new key appends it, and a key that is deleted and
  assigned again moves to the end. \<open>sorted\<close> in \<open>__real_load__\<close> depends on this order,
  so a dictionary is an association list in iteration order.
\<close>

type_synonym ('k, 'v) dict = "('k \<times> 'v) list"

datatype error = KeyError | IOError | ParseError

definition dict_keys :: "('k, 'v) dict \<Rightarrow> 'k list" where
  "dict_keys d = map fst d"

text \<open>\<open>k in d\<close>\<close>

definition dict_contains :: "'k \<Rightarrow> ('k, 'v) dict \<Rightarrow> bool" where
  "dict_contains k d = (k \<in> set (dict_keys d))"

text \<open>\<open>d.get(k)\<close>, with \<open>None\<close> for a missing key\<close>

definition dict_get :: "('k, 'v) dict \<Rightarrow> 'k \<Rightarrow> 'v option" where
  "dict_get d k = map_of d k"

text \<open>\<open>d[k] = v\<close>: in place when the key is present, appended otherwise\<close>

definition dict_setitem :: "'k \<Rightarrow> 'v \<Rightarrow> ('k, 'v) dict \<Rightarrow> ('k, 'v) dict" where
  "dict_setitem k v d = AList.update k v d"

text \<open>\<open>del d[k]\<close>: raises \<open>KeyError\<close> when the key is missing\<close>

definition dict_delitem :: "'k \<Rightarrow> ('k, 'v) dict \<Rightarrow> error + ('k, 'v) dict" where
  "dict_delitem k d = (if dict_contains k d then Inr (AList.delete k d) else Inl KeyError)"

text \<open>
  The slice \<open>xs[:n]\<close>: the first \<open>n\<close> elements, all of them when \<open>n\<close> exceeds the
  length; a negative \<open>n\<close> counts from the end.
\<close>

definition slice_to :: "int \<Rightarrow> 'a list \<Rightarrow> 'a list" where
  "slice_to n xs = (if 0 \<le> n then take (nat n) xs else take (length xs - nat (- n)) xs)"

subsection \<open>The cache state and the file system\<close>

text \<open>
  \<open>FileMeta\<close> is declared with \<open>mtime : int\<close> and \<open>ac : int\<close>. The code only compares
  modification times for equality (and with the default \<open>0\<close>).
\<close>

record FileMeta =
  mtime :: int
  ac :: int

text \<open>The class attributes of \<open>AttrMeta\<close> that \<open>_loadFile\<close> uses. \<open>'v\<close> is the parsed JSON value.\<close>

record 'v AttrMeta =
  opened_files :: "(string, 'v) dict"
  opened_meta :: "(string, FileMeta) dict"
  total_cached :: int

text \<open>
  What one call gets from the outside, one field for each place where the code asks:
  \<open>os.path.exists\<close> (line 122), \<open>os.path.getmtime\<close> in \<open>_loadFile\<close> (line 129),
  \<open>open(path).read()\<close> (lines 94 and 95), \<open>json.loads\<close> (line 96) and
  \<open>os.path.getmtime\<close> in \<open>__real_load__\<close> (line 99). Other processes may change or
  remove the file between two of these, so the answers are independent of each other: each
  \<open>getmtime\<close> can raise \<open>OSError\<close> (which is \<open>IOError\<close>) although \<open>exists\<close> has
  accepted the path, and the two can return different times. Reading can fail
  (\<open>IOError\<close>) and parsing can fail (\<open>ParseError\<close>).
\<close>

record 'v world =
  path_exists :: "string \<Rightarrow> bool"
  getmtime :: "string \<Rightarrow> error + int"
  read_text :: "string \<Rightarrow> error + string"
  json_loads :: "string \<Rightarrow> error + 'v"
  getmtime_after_read :: "string \<Rightarrow> error + int"

text \<open>A raised exception leaves the state as it was at the raise, so every operation
  returns its result or error together with the state.\<close>

type_synonym ('a, 'v) outcome = "(error + 'a) \<times> 'v AttrMeta"

subsection \<open>\<open>__real_load__\<close>\<close>

text \<open>\<open>sorted(_opened_meta.items(), key=lambda item: item[1]["ac"])\<close>; \<open>sorted\<close> is stable,
  as \<open>sort_key\<close> is.\<close>

definition sorted_meta :: "'v AttrMeta \<Rightarrow> (string \<times> FileMeta) list" where
  "sorted_meta s = sort_key (\<lambda>item. ac (snd item)) (opened_meta s)"

definition num_to_evict :: "'v AttrMeta \<Rightarrow> int" where
  "num_to_evict s = int (length (opened_files s)) - total_cached s + 1"

definition to_evict :: "'v AttrMeta \<Rightarrow> (string \<times> FileMeta) list" where
  "to_evict s = slice_to (num_to_evict s) (sorted_meta s)"

text \<open>The loop \<open>for evict_path, _ in to_evict\<close>: two \<open>del\<close> statements per path.\<close>

fun evict_loop :: "string list \<Rightarrow> 'v AttrMeta \<Rightarrow> (unit, 'v) outcome" where
  "evict_loop [] s = (Inr (), s)"
| "evict_loop (evict_path # rest) s =
     (case dict_delitem evict_path (opened_files s) of
        Inl e \<Rightarrow> (Inl e, s)
      | Inr fs \<Rightarrow>
          (let s1 = s\<lparr>opened_files := fs\<rparr> in
           case dict_delitem evict_path (opened_meta s1) of
             Inl e \<Rightarrow> (Inl e, s1)
           | Inr ms \<Rightarrow> evict_loop rest (s1\<lparr>opened_meta := ms\<rparr>)))"

text \<open>The block under \<open>if len(_opened_files) >= _total_cached\<close>.\<close>

definition evict :: "'v AttrMeta \<Rightarrow> (unit, 'v) outcome" where
  "evict s =
     (if total_cached s \<le> int (length (opened_files s))
      then evict_loop (map fst (to_evict s)) s
      else (Inr (), s))"

text \<open>
  The part after the comment \<open># actual load\<close>. The payload is stored (line 97) before
  \<open>os.path.getmtime\<close> is called for the \<open>FileMeta\<close> (line 99): when that call raises,
  the payload stays in \<open>_opened_files\<close> and \<open>_opened_meta\<close> is not touched.
\<close>

definition actual_load :: "'v world \<Rightarrow> string \<Rightarrow> 'v AttrMeta \<Rightarrow> ('v, 'v) outcome" where
  "actual_load w path s =
     (case read_text w path of
        Inl e \<Rightarrow> (Inl e, s)
      | Inr raw \<Rightarrow>
          (case json_loads w raw of
             Inl e \<Rightarrow> (Inl e, s)
           | Inr data \<Rightarrow>
               (let s1 = s\<lparr>opened_files := dict_setitem path data (opened_files s)\<rparr> in
                case getmtime_after_read w path of
                  Inl e \<Rightarrow> (Inl e, s1)
                | Inr t \<Rightarrow>
                    (Inr data,
                     s1\<lparr>opened_meta :=
                          dict_setitem path \<lparr>mtime = t, ac = 1\<rparr> (opened_meta s1)\<rparr>))))"

definition real_load :: "'v world \<Rightarrow> string \<Rightarrow> 'v AttrMeta \<Rightarrow> ('v, 'v) outcome" where
  "real_load w path s =
     (case evict s of
        (Inl e, s1) \<Rightarrow> (Inl e, s1)
      | (Inr _, s1) \<Rightarrow> actual_load w path s1)"

subsection \<open>\<open>_loadFile\<close>\<close>

text \<open>\<open>_opened_meta.get(path, {}).get("mtime", 0)\<close>\<close>

definition stored_mtime :: "'v AttrMeta \<Rightarrow> string \<Rightarrow> int" where
  "stored_mtime s path = (case dict_get (opened_meta s) path of None \<Rightarrow> 0 | Some m \<Rightarrow> mtime m)"

text \<open>
  The condition of the second \<open>if\<close>: \<open>and\<close> evaluates \<open>getmtime\<close> only for a cached
  path, and the condition raises when \<open>getmtime\<close> does.
\<close>

definition is_hit :: "'v world \<Rightarrow> string \<Rightarrow> 'v AttrMeta \<Rightarrow> error + bool" where
  "is_hit w path s =
     (if dict_contains path (opened_files s)
      then (case getmtime w path of
              Inl e \<Rightarrow> Inl e
            | Inr t \<Rightarrow> Inr (stored_mtime s path = t))
      else Inr False)"

text \<open>The result \<open>None\<close> of \<open>_loadFile\<close> (file missing) is \<open>Inr None\<close>.\<close>

definition loadFile :: "'v world \<Rightarrow> string \<Rightarrow> 'v AttrMeta \<Rightarrow> ('v option, 'v) outcome" where
  "loadFile w path s =
     (if \<not> path_exists w path then
        (let s1 = (if dict_contains path (opened_files s)
                   then s\<lparr>opened_files := AList.delete path (opened_files s)\<rparr> else s);
             s2 = (if dict_contains path (opened_meta s1)
                   then s1\<lparr>opened_meta := AList.delete path (opened_meta s1)\<rparr> else s1)
         in (Inr None, s2))
      else
        (case is_hit w path s of
           Inl e \<Rightarrow> (Inl e, s)
         | Inr True \<Rightarrow>
             (case dict_get (opened_meta s) path of
                None \<Rightarrow> (Inl KeyError, s)
              | Some m \<Rightarrow>
                  (let s1 = s\<lparr>opened_meta :=
                                dict_setitem path (m\<lparr>ac := ac m + 1\<rparr>) (opened_meta s)\<rparr> in
                   case dict_get (opened_files s1) path of
                     None \<Rightarrow> (Inl KeyError, s1)
                   | Some data \<Rightarrow> (Inr (Some data), s1)))
         | Inr False \<Rightarrow>
             (case real_load w path s of
                (Inl e, s1) \<Rightarrow> (Inl e, s1)
              | (Inr raw, s1) \<Rightarrow> (Inr (Some raw), s1))))"

subsection \<open>Sequences of calls\<close>

text \<open>
  The caller may catch an exception and go on, and files change between calls: a run is a
  list of calls, each with the world it sees, and the state is threaded through whatever
  each call returns or raises.
\<close>

definition load_state :: "'v world \<Rightarrow> string \<Rightarrow> 'v AttrMeta \<Rightarrow> 'v AttrMeta" where
  "load_state w path s = snd (loadFile w path s)"

fun run_calls :: "('v world \<times> string) list \<Rightarrow> 'v AttrMeta \<Rightarrow> 'v AttrMeta" where
  "run_calls [] s = s"
| "run_calls ((w, path) # cs) s = run_calls cs (load_state w path s)"

definition empty_store :: "int \<Rightarrow> 'v AttrMeta" where
  "empty_store cap = \<lparr>opened_files = [], opened_meta = [], total_cached = cap\<rparr>"

text \<open>The two dictionaries hold the same keys (a dictionary holds a key once).\<close>

definition store_ok :: "'v AttrMeta \<Rightarrow> bool" where
  "store_ok s =
     (distinct (dict_keys (opened_files s)) \<and> distinct (dict_keys (opened_meta s)) \<and>
      set (dict_keys (opened_files s)) = set (dict_keys (opened_meta s)))"


subsection \<open>Notions used to state the properties\<close>

text \<open>The position of a key in a dictionary's iteration order.\<close>

definition dict_index :: "'k \<Rightarrow> ('k, 'v) dict \<Rightarrow> nat" where
  "dict_index k d = length (takeWhile (\<lambda>e. fst e \<noteq> k) d)"


text \<open>The paths the eviction loop of \<open>__real_load__\<close> runs over (none when the guard is false).\<close>

definition victims :: "'v AttrMeta \<Rightarrow> string set" where
  "victims s =
     (if total_cached s \<le> int (length (opened_files s)) then set (map fst (to_evict s)) else {})"




subsection \<open>Example worlds and stores\<close>

text \<open>Every file exists with mtime 7 and parses to its own path.\<close>

definition w0 :: "string world" where
  "w0 = \<lparr>path_exists = (\<lambda>_. True), getmtime = (\<lambda>_. Inr 7), read_text = (\<lambda>p. Inr p),
          json_loads = (\<lambda>r. Inr r), getmtime_after_read = (\<lambda>_. Inr 7)\<rparr>"

text \<open>No file exists.\<close>

definition w_gone :: "string world" where
  "w_gone = \<lparr>path_exists = (\<lambda>_. False), getmtime = (\<lambda>_. Inl IOError),
              read_text = (\<lambda>_. Inl IOError), json_loads = (\<lambda>r. Inr r),
              getmtime_after_read = (\<lambda>_. Inl IOError)\<rparr>"

text \<open>A full store of capacity 2: \<open>a\<close> loaded first and read twice, \<open>b\<close> read once.\<close>

definition s_ab :: "string AttrMeta" where
  "s_ab = \<lparr>opened_files = [(''a'', ''a''), (''b'', ''b'')],
           opened_meta = [(''a'', \<lparr>mtime = 7, ac = 2\<rparr>), (''b'', \<lparr>mtime = 7, ac = 1\<rparr>)],
           total_cached = 2\<rparr>"

text \<open>Every file exists with mtime 8; its contents do not parse.\<close>

definition w_bad :: "string world" where
  "w_bad = \<lparr>path_exists = (\<lambda>_. True), getmtime = (\<lambda>_. Inr 8), read_text = (\<lambda>_. Inr ''{''),
             json_loads = (\<lambda>_. Inl ParseError), getmtime_after_read = (\<lambda>_. Inr 8)\<rparr>"

text \<open>A full store of capacity 1 holding \<open>a\<close>.\<close>

definition s_a :: "string AttrMeta" where
  "s_a = \<lparr>opened_files = [(''a'', ''a'')], opened_meta = [(''a'', \<lparr>mtime = 7, ac = 1\<rparr>)],
          total_cached = 1\<rparr>"

text \<open>Every file exists with mtime 9 and parses to its path followed by \<open>!\<close>.\<close>

definition w1 :: "string world" where
  "w1 = \<lparr>path_exists = (\<lambda>_. True), getmtime = (\<lambda>_. Inr 9), read_text = (\<lambda>p. Inr (p @ ''!'')),
          json_loads = (\<lambda>r. Inr r), getmtime_after_read = (\<lambda>_. Inr 9)\<rparr>"


lemmas load_defs = load_state_def loadFile_def is_hit_def dict_contains_def dict_keys_def
  real_load_def evict_def actual_load_def dict_setitem_def stored_mtime_def dict_get_def
  to_evict_def num_to_evict_def sorted_meta_def slice_to_def dict_delitem_def empty_store_def

section \<open>Dictionaries and sorting\<close>


lemma dict_index_Cons:
  "dict_index k (e # d) = (if fst e = k then 0 else Suc (dict_index k d))"
  by (simp add: dict_index_def)


lemma delete_filter: "AList.delete k d = filter (\<lambda>e. fst e \<noteq> k) d"
  by (induction d) auto

lemma keys_delete: "set (dict_keys (AList.delete k d)) = set (dict_keys d) - {k}"
  by (induction d) (auto simp: dict_keys_def)

lemma keys_filter_notin:
  "set (dict_keys (filter (\<lambda>e. fst e \<notin> A) d)) = set (dict_keys d) - A"
  by (induction d) (auto simp: dict_keys_def)

lemma evict_loop_ok:
  "set ps \<subseteq> set (dict_keys (opened_files s)) \<Longrightarrow> set ps \<subseteq> set (dict_keys (opened_meta s)) \<Longrightarrow>
   distinct ps \<Longrightarrow>
   evict_loop ps s =
     (Inr (), s\<lparr>opened_files := filter (\<lambda>e. fst e \<notin> set ps) (opened_files s),
                opened_meta := filter (\<lambda>e. fst e \<notin> set ps) (opened_meta s)\<rparr>)"
proof (induction ps arbitrary: s)
  case Nil
  then show ?case by simp
next
  case (Cons p ps)
  let ?s2 = "s\<lparr>opened_files := AList.delete p (opened_files s),
                opened_meta := AList.delete p (opened_meta s)\<rparr>"
  have a: "set ps \<subseteq> set (dict_keys (opened_files ?s2))"
    using Cons.prems by (auto simp: keys_delete)
  have b: "set ps \<subseteq> set (dict_keys (opened_meta ?s2))"
    using Cons.prems by (auto simp: keys_delete)
  have c: "distinct ps" using Cons.prems by simp
  have step: "evict_loop (p # ps) s = evict_loop ps ?s2"
    using Cons.prems by (simp add: dict_delitem_def dict_contains_def)
  have conj: "\<And>(e::string \<times> 'b). (fst e \<noteq> p \<and> fst e \<notin> set ps) = (fst e \<notin> set (p # ps))"
    by auto
  show ?case
    unfolding step Cons.IH [OF a b c]
    by (simp add: delete_filter conj_commute)
qed

lemma distinct_map_insort_key:
  "distinct (map g (insort_key f x xs)) = (g x \<notin> g ` set xs \<and> distinct (map g xs))"
  by (induction xs) (auto simp: set_insort_key)

lemma distinct_map_sort_key: "distinct (map g (sort_key f xs)) = distinct (map g xs)"
  by (induction xs) (simp_all add: distinct_map_insort_key)

lemma delete_absent: "k \<notin> set (dict_keys d) \<Longrightarrow> AList.delete k d = d"
  by (induction d) (auto simp: dict_keys_def)


lemma distinct_keys_filter: "distinct (dict_keys d) \<Longrightarrow> distinct (dict_keys (filter P d))"
  by (simp add: dict_keys_def distinct_map_filter)

lemma keys_setitem: "set (dict_keys (dict_setitem k v d)) = insert k (set (dict_keys d))"
  by (simp add: dict_keys_def dict_setitem_def dom_update)



lemma length_keys: "length (dict_keys d) = length d"
  by (simp add: dict_keys_def)

lemma store_ok_length: "store_ok s \<Longrightarrow> length (opened_meta s) = length (opened_files s)"
  by (metis store_ok_def distinct_card length_keys)

lemma to_evict_take:
  "total_cached s \<le> int (length (opened_files s)) \<Longrightarrow>
   to_evict s = take (nat (num_to_evict s)) (sorted_meta s)"
  by (simp add: to_evict_def slice_to_def num_to_evict_def)

lemma to_evict_prefix: "\<exists>k. to_evict s = take k (sorted_meta s)"
  by (auto simp: to_evict_def slice_to_def)

lemma set_to_evict: "set (to_evict s) \<subseteq> set (opened_meta s)"
proof -
  obtain k where "to_evict s = take k (sorted_meta s)" using to_evict_prefix by blast
  then have "set (to_evict s) \<subseteq> set (sorted_meta s)" by (simp add: set_take_subset)
  then show ?thesis by (simp add: sorted_meta_def)
qed

lemma keys_to_evict: "set (map fst (to_evict s)) \<subseteq> set (dict_keys (opened_meta s))"
  using set_to_evict [of s] by (auto simp: dict_keys_def)

lemma distinct_to_evict:
  "distinct (dict_keys (opened_meta s)) \<Longrightarrow> distinct (map fst (to_evict s))"
proof -
  assume d: "distinct (dict_keys (opened_meta s))"
  obtain k where k: "to_evict s = take k (sorted_meta s)" using to_evict_prefix by blast
  have "distinct (map fst (sorted_meta s))"
    using d by (simp add: sorted_meta_def distinct_map_sort_key dict_keys_def)
  then have "distinct (take k (map fst (sorted_meta s)))" by (rule distinct_take)
  then show ?thesis by (simp add: k take_map)
qed

lemma evict_ok:
  assumes "store_ok s"
  shows "evict s =
     (Inr (), s\<lparr>opened_files := filter (\<lambda>e. fst e \<notin> victims s) (opened_files s),
                opened_meta := filter (\<lambda>e. fst e \<notin> victims s) (opened_meta s)\<rparr>)"
proof (cases "total_cached s \<le> int (length (opened_files s))")
  case True
  have a: "set (map fst (to_evict s)) \<subseteq> set (dict_keys (opened_files s))"
    using keys_to_evict [of s] assms by (simp add: store_ok_def)
  have b: "set (map fst (to_evict s)) \<subseteq> set (dict_keys (opened_meta s))"
    by (rule keys_to_evict)
  have c: "distinct (map fst (to_evict s))"
    using assms by (simp add: store_ok_def distinct_to_evict)
  show ?thesis using True evict_loop_ok [OF a b c] by (simp add: evict_def victims_def)
next
  case False
  then show ?thesis by (simp add: evict_def victims_def)
qed





lemma real_load_eq: "store_ok s \<Longrightarrow> real_load w p s = actual_load w p (snd (evict s))"
  by (simp add: real_load_def evict_ok)

lemma loadFile_absent:
  "\<not> path_exists w p \<Longrightarrow>
   loadFile w p s = (Inr None, s\<lparr>opened_files := AList.delete p (opened_files s),
                                   opened_meta := AList.delete p (opened_meta s)\<rparr>)"
  by (simp add: loadFile_def dict_contains_def delete_absent Let_def)

lemma loadFile_miss:
  "path_exists w p \<Longrightarrow> is_hit w p s = Inr False \<Longrightarrow> store_ok s \<Longrightarrow>
   loadFile w p s =
     (map_sum id Some (fst (actual_load w p (snd (evict s)))),
      snd (actual_load w p (snd (evict s))))"
  by (simp add: loadFile_def real_load_eq split: prod.splits sum.splits)

lemma loadFile_raise:
  "path_exists w p \<Longrightarrow> is_hit w p s = Inl e \<Longrightarrow> loadFile w p s = (Inl e, s)"
  by (simp add: loadFile_def)

lemma is_hit_cases:
  obtains e where "is_hit w p s = Inl e" | "is_hit w p s = Inr True" | "is_hit w p s = Inr False"
  by (cases "is_hit w p s") auto


lemma loadFile_hit:
  "path_exists w p \<Longrightarrow> is_hit w p s = Inr True \<Longrightarrow> dict_get (opened_meta s) p = Some m \<Longrightarrow>
   dict_get (opened_files s) p = Some v \<Longrightarrow>
   loadFile w p s = (Inr (Some v), s\<lparr>opened_meta := dict_setitem p (m\<lparr>ac := ac m + 1\<rparr>) (opened_meta s)\<rparr>)"
  by (simp add: loadFile_def)


lemma dict_get_None: "k \<notin> set (dict_keys d) \<Longrightarrow> dict_get d k = None"
  by (induction d) (auto simp: dict_keys_def dict_get_def)

lemma dict_get_keys: "dict_get d k = Some v \<Longrightarrow> k \<in> set (dict_keys d)"
  by (induction d) (auto simp: dict_keys_def dict_get_def split: if_splits)



lemma length_filter_notin:
  assumes "distinct (dict_keys d)" and "A \<subseteq> set (dict_keys d)"
  shows "length (filter (\<lambda>e. fst e \<notin> A) d) = length d - card A"
proof -
  have fin: "finite A" using assms(2) finite_subset by blast
  have "length (filter (\<lambda>e. fst e \<notin> A) d) = length (dict_keys (filter (\<lambda>e. fst e \<notin> A) d))"
    by (simp add: length_keys)
  also have "\<dots> = card (set (dict_keys (filter (\<lambda>e. fst e \<notin> A) d)))"
    using assms(1) by (simp add: distinct_card distinct_keys_filter)
  also have "\<dots> = card (set (dict_keys d) - A)" by (simp add: keys_filter_notin)
  also have "\<dots> = card (set (dict_keys d)) - card A"
    using fin assms(2) by (simp add: card_Diff_subset)
  also have "\<dots> = length d - card A"
    using assms(1) by (simp add: distinct_card length_keys)
  finally show ?thesis .
qed

lemma card_victims:
  assumes ok: "store_ok s" and cap: "1 \<le> total_cached s"
    and full: "total_cached s \<le> int (length (opened_files s))"
  shows "int (card (victims s)) = num_to_evict s"
proof -
  have d: "distinct (map fst (to_evict s))"
    using ok by (simp add: store_ok_def distinct_to_evict)
  have "card (victims s) = length (map fst (to_evict s))"
    using full distinct_card [OF d] by (simp add: victims_def)
  also have "\<dots> = min (nat (num_to_evict s)) (length (opened_meta s))"
    using full by (simp add: to_evict_take sorted_meta_def)
  finally have "card (victims s) = min (nat (num_to_evict s)) (length (opened_files s))"
    using ok by (simp add: store_ok_length)
  then show ?thesis using cap full by (simp add: num_to_evict_def)
qed

lemma victims_keys: "store_ok s \<Longrightarrow> victims s \<subseteq> set (dict_keys (opened_files s))"
  using keys_to_evict [of s] by (auto simp: victims_def store_ok_def)


lemma length_evict_full:
  assumes ok: "store_ok s" and cap: "1 \<le> total_cached s"
    and full: "total_cached s \<le> int (length (opened_files s))"
  shows "int (length (opened_files (snd (evict s)))) = total_cached s - 1"
proof -
  have df: "distinct (dict_keys (opened_files s))" using ok by (simp add: store_ok_def)
  have "length (opened_files (snd (evict s))) = length (opened_files s) - card (victims s)"
    using length_filter_notin [OF df victims_keys [OF ok]] by (simp add: evict_ok [OF ok])
  then show ?thesis
    using card_victims [OF ok cap full] full cap by (simp add: num_to_evict_def)
qed







section \<open>Capacity\<close>




section \<open>Deleted files\<close>

lemma evict_loop_meta_keys:
  "set (dict_keys (opened_meta (snd (evict_loop ps s)))) \<subseteq> set (dict_keys (opened_meta s))"
proof (induction ps arbitrary: s)
  case Nil
  then show ?case by simp
next
  case (Cons p ps)
  show ?case
  proof (cases "dict_contains p (opened_files s) \<and> dict_contains p (opened_meta s)")
    case True
    let ?s2 = "s\<lparr>opened_files := AList.delete p (opened_files s),
                  opened_meta := AList.delete p (opened_meta s)\<rparr>"
    have "evict_loop (p # ps) s = evict_loop ps ?s2"
      using True by (simp add: dict_delitem_def)
    moreover have "set (dict_keys (opened_meta (snd (evict_loop ps ?s2))))
        \<subseteq> set (dict_keys (opened_meta ?s2))" by (rule Cons.IH)
    ultimately show ?thesis by (auto simp: keys_delete)
  next
    case False
    then show ?thesis by (auto simp: dict_delitem_def)
  qed
qed

lemma evict_meta_keys:
  "set (dict_keys (opened_meta (snd (evict s)))) \<subseteq> set (dict_keys (opened_meta s))"
  by (simp add: evict_def evict_loop_meta_keys)

lemma actual_load_meta_keys:
  "set (dict_keys (opened_meta (snd (actual_load w q s)))) \<subseteq> insert q (set (dict_keys (opened_meta s)))"
  by (auto simp: actual_load_def keys_setitem Let_def split: sum.splits)

lemma real_load_meta_keys:
  "set (dict_keys (opened_meta (snd (real_load w q s)))) \<subseteq> insert q (set (dict_keys (opened_meta s)))"
proof (cases "evict s")
  case (Pair r s1)
  have k: "set (dict_keys (opened_meta s1)) \<subseteq> set (dict_keys (opened_meta s))"
    using evict_meta_keys [of s] Pair by simp
  show ?thesis
  proof (cases r)
    case (Inl e)
    then show ?thesis using Pair k by (auto simp: real_load_def)
  next
    case (Inr u)
    then show ?thesis using Pair k actual_load_meta_keys [of w q s1] by (auto simp: real_load_def)
  qed
qed

lemma loadFile_meta_keys:
  "set (dict_keys (opened_meta (snd (loadFile w q s)))) \<subseteq>
     (if path_exists w q then insert q (set (dict_keys (opened_meta s)))
      else set (dict_keys (opened_meta s)) - {q})"
proof (cases "path_exists w q")
  case False
  then show ?thesis by (simp add: loadFile_absent keys_delete)
next
  case True
  show ?thesis
  proof (cases rule: is_hit_cases [of w q s])
    case (1 e)
    then show ?thesis using True by (auto simp: loadFile_raise)
  next
    case 2
    then show ?thesis using True
      by (auto simp: loadFile_def Let_def keys_setitem split: option.splits)
  next
    case 3
    have "snd (loadFile w q s) = snd (real_load w q s)"
      using True 3 by (simp add: loadFile_def split: prod.splits sum.splits)
    then show ?thesis using True real_load_meta_keys [of w q s] by simp
  qed
qed

lemma run_calls_stays_absent:
  "p \<notin> set (dict_keys (opened_meta s)) \<Longrightarrow>
   \<forall>c \<in> set cs. snd c \<noteq> p \<or> \<not> path_exists (fst c) p \<Longrightarrow>
   p \<notin> set (dict_keys (opened_meta (run_calls cs s)))"
proof (induction cs arbitrary: s)
  case Nil
  then show ?case by simp
next
  case (Cons c cs)
  obtain w q where c: "c = (w, q)" by (cases c)
  have "q \<noteq> p \<or> \<not> path_exists w p" using Cons.prems(2) c by simp
  then have "p \<notin> set (dict_keys (opened_meta (load_state w q s)))"
    using loadFile_meta_keys [of w q s] Cons.prems(1) by (auto simp: load_state_def split: if_splits)
  then have "p \<notin> set (dict_keys (opened_meta (run_calls cs (load_state w q s))))"
    using Cons.IH Cons.prems(2) by simp
  then show ?case by (simp add: c)
qed

text \<open>
  C5. When the file does not exist, \<open>_loadFile\<close> returns \<open>None\<close> and deletes the path
  from both dictionaries, leaving every other entry as it was. Through any later calls that
  do not load the path again (calls for other paths, or for this path while its file is
  still missing) the path is not a key of \<open>_opened_meta\<close>, so it is never among the
  entries \<open>to_evict\<close> selects.
\<close>

theorem deletion_correctness:
  assumes "\<not> path_exists w p"
  shows "loadFile w p s =
           (Inr None, s\<lparr>opened_files := AList.delete p (opened_files s),
                         opened_meta := AList.delete p (opened_meta s)\<rparr>) \<and>
         dict_get (opened_files (load_state w p s)) p = None \<and>
         dict_get (opened_meta (load_state w p s)) p = None \<and>
         (\<forall>q. q \<noteq> p \<longrightarrow>
            dict_get (opened_files (load_state w p s)) q = dict_get (opened_files s) q \<and>
            dict_get (opened_meta (load_state w p s)) q = dict_get (opened_meta s) q) \<and>
         (\<forall>cs. (\<forall>c \<in> set cs. snd c \<noteq> p \<or> \<not> path_exists (fst c) p) \<longrightarrow>
            \<not> dict_contains p (opened_meta (run_calls cs (load_state w p s))) \<and>
            p \<notin> set (map fst (to_evict (run_calls cs (load_state w p s)))))"
proof -
  have a: "loadFile w p s =
           (Inr None, s\<lparr>opened_files := AList.delete p (opened_files s),
                         opened_meta := AList.delete p (opened_meta s)\<rparr>)"
    using assms by (rule loadFile_absent)
  have b: "dict_get (opened_files (load_state w p s)) p = None"
    using assms by (simp add: load_state_def loadFile_absent dict_get_def delete_conv')
  have c: "dict_get (opened_meta (load_state w p s)) p = None"
    using assms by (simp add: load_state_def loadFile_absent dict_get_def delete_conv')
  have d: "\<forall>q. q \<noteq> p \<longrightarrow>
            dict_get (opened_files (load_state w p s)) q = dict_get (opened_files s) q \<and>
            dict_get (opened_meta (load_state w p s)) q = dict_get (opened_meta s) q"
    using assms by (simp add: load_state_def loadFile_absent dict_get_def)
  have gone: "p \<notin> set (dict_keys (opened_meta (load_state w p s)))"
    using assms by (simp add: load_state_def loadFile_absent keys_delete)
  have e: "\<forall>cs. (\<forall>c \<in> set cs. snd c \<noteq> p \<or> \<not> path_exists (fst c) p) \<longrightarrow>
            \<not> dict_contains p (opened_meta (run_calls cs (load_state w p s))) \<and>
            p \<notin> set (map fst (to_evict (run_calls cs (load_state w p s))))"
  proof (intro allI impI)
    fix cs :: "('a world \<times> string) list"
    assume h: "\<forall>c \<in> set cs. snd c \<noteq> p \<or> \<not> path_exists (fst c) p"
    have "p \<notin> set (dict_keys (opened_meta (run_calls cs (load_state w p s))))"
      using run_calls_stays_absent [OF gone h] .
    then show "\<not> dict_contains p (opened_meta (run_calls cs (load_state w p s))) \<and>
         p \<notin> set (map fst (to_evict (run_calls cs (load_state w p s))))"
      using keys_to_evict [of "run_calls cs (load_state w p s)"]
      by (auto simp: dict_contains_def)
  qed
  from a b c d e show ?thesis by blast
qed

theorem deletion_correctness_witness:
  "\<not> path_exists w_gone ''a'' \<and>
   loadFile w_gone ''a'' s_ab =
     (Inr None, \<lparr>opened_files = [(''b'', ''b'')], opened_meta = [(''b'', \<lparr>mtime = 7, ac = 1\<rparr>)],
                 total_cached = 2\<rparr>) \<and>
   ''a'' \<notin> set (map fst (to_evict (run_calls [(w0, ''c''), (w0, ''d'')] (load_state w_gone ''a'' s_ab))))"
  using deletion_correctness [of w_gone "''a''" s_ab]
  by (simp add: w_gone_def w0_def s_ab_def load_defs)

section \<open>Cache hits\<close>

lemma is_hit_cached:
  assumes "dict_get (opened_files s) p = Some v" and "dict_get (opened_meta s) p = Some m"
    and "getmtime w p = Inr (mtime m)"
  shows "is_hit w p s = Inr True"
  using assms dict_get_keys [OF assms(1)]
  by (simp add: is_hit_def dict_contains_def stored_mtime_def)

lemma is_hit_stale:
  assumes "dict_get (opened_files s) p = Some v" and "dict_get (opened_meta s) p = Some m"
    and "getmtime w p = Inr t" and "t \<noteq> mtime m"
  shows "is_hit w p s = Inr False"
  using assms dict_get_keys [OF assms(1)]
  by (auto simp: is_hit_def dict_contains_def stored_mtime_def)

lemma dict_get_setitem:
  "dict_get (dict_setitem k v d) q = (if q = k then Some v else dict_get d q)"
  by (simp add: dict_get_def dict_setitem_def update_conv')

lemma keys_setitem_present:
  "k \<in> set (dict_keys d) \<Longrightarrow> dict_keys (dict_setitem k v d) = dict_keys d"
  by (simp add: dict_keys_def dict_setitem_def update_keys)

text \<open>
  C4. For a path that is cached with a stored mtime equal to the file's current mtime
  (the one \<open>os.path.getmtime\<close> returns at line 129),
  \<open>_loadFile\<close> returns the cached payload, adds exactly 1 to that entry's access count,
  and changes nothing else: the payloads, the entry's mtime, every other entry and the order
  of the keys stay as they were. The outcome is the same in every world that agrees on the
  file's existence and mtime, whatever the file's contents or the parser would give: the
  contents are not consulted.
\<close>

theorem hit_correctness:
  assumes "path_exists w p"
    and "dict_get (opened_files s) p = Some v"
    and "dict_get (opened_meta s) p = Some m"
    and "getmtime w p = Inr (mtime m)"
  shows "loadFile w p s =
           (Inr (Some v), s\<lparr>opened_meta := dict_setitem p (m\<lparr>ac := ac m + 1\<rparr>) (opened_meta s)\<rparr>) \<and>
         opened_files (load_state w p s) = opened_files s \<and>
         dict_get (opened_meta (load_state w p s)) p = Some \<lparr>mtime = mtime m, ac = ac m + 1\<rparr> \<and>
         (\<forall>q. q \<noteq> p \<longrightarrow>
            dict_get (opened_meta (load_state w p s)) q = dict_get (opened_meta s) q) \<and>
         dict_keys (opened_meta (load_state w p s)) = dict_keys (opened_meta s) \<and>
         (\<forall>w'. path_exists w' p \<and> getmtime w' p = getmtime w p \<longrightarrow>
            loadFile w' p s = loadFile w p s)"
proof -
  have hit: "is_hit w p s = Inr True" using assms(2-4) by (rule is_hit_cached)
  have a: "loadFile w p s =
      (Inr (Some v), s\<lparr>opened_meta := dict_setitem p (m\<lparr>ac := ac m + 1\<rparr>) (opened_meta s)\<rparr>)"
    using assms(1) hit assms(3) assms(2) by (rule loadFile_hit)
  have inm: "p \<in> set (dict_keys (opened_meta s))" using assms(3) by (rule dict_get_keys)
  have b: "opened_files (load_state w p s) = opened_files s"
    by (simp add: load_state_def a)
  have c: "dict_get (opened_meta (load_state w p s)) p = Some \<lparr>mtime = mtime m, ac = ac m + 1\<rparr>"
    by (simp add: load_state_def a dict_get_setitem)
  have d: "\<forall>q. q \<noteq> p \<longrightarrow>
      dict_get (opened_meta (load_state w p s)) q = dict_get (opened_meta s) q"
    by (simp add: load_state_def a dict_get_setitem)
  have e: "dict_keys (opened_meta (load_state w p s)) = dict_keys (opened_meta s)"
    using inm by (simp add: load_state_def a keys_setitem_present)
  have f: "\<forall>w'. path_exists w' p \<and> getmtime w' p = getmtime w p \<longrightarrow>
      loadFile w' p s = loadFile w p s"
  proof (intro allI impI)
    fix w' :: "'a world"
    assume h: "path_exists w' p \<and> getmtime w' p = getmtime w p"
    then have t': "getmtime w' p = Inr (mtime m)" using assms(4) by simp
    have hit': "is_hit w' p s = Inr True" using assms(2) assms(3) t' by (rule is_hit_cached)
    have "loadFile w' p s =
      (Inr (Some v), s\<lparr>opened_meta := dict_setitem p (m\<lparr>ac := ac m + 1\<rparr>) (opened_meta s)\<rparr>)"
      using h hit' assms(3) assms(2) by (simp add: loadFile_hit)
    then show "loadFile w' p s = loadFile w p s" using a by simp
  qed
  from a b c d e f show ?thesis by blast
qed

theorem hit_correctness_witness:
  "path_exists w0 ''a'' \<and> dict_get (opened_files s_ab) ''a'' = Some ''a'' \<and>
   dict_get (opened_meta s_ab) ''a'' = Some \<lparr>mtime = 7, ac = 2\<rparr> \<and>
   getmtime w0 ''a'' = Inr 7 \<and>
   loadFile w0 ''a'' s_ab =
     (Inr (Some ''a''),
      \<lparr>opened_files = [(''a'', ''a''), (''b'', ''b'')],
       opened_meta = [(''a'', \<lparr>mtime = 7, ac = 3\<rparr>), (''b'', \<lparr>mtime = 7, ac = 1\<rparr>)],
       total_cached = 2\<rparr>)"
  using hit_correctness [of w0 "''a''" s_ab "''a''" "\<lparr>mtime = 7, ac = 2\<rparr>"]
  by (simp add: w0_def s_ab_def dict_get_def dict_setitem_def)

lemma run_hits:
  "path_exists w p \<Longrightarrow> dict_get (opened_files s) p = Some v \<Longrightarrow>
   dict_get (opened_meta s) p = Some m \<Longrightarrow> getmtime w p = Inr (mtime m) \<Longrightarrow>
   run_calls (replicate n (w, p)) s =
     s\<lparr>opened_meta := dict_setitem p (m\<lparr>ac := ac m + int n\<rparr>) (opened_meta s)\<rparr>"
proof (induction n arbitrary: s m)
  case 0
  have "dict_setitem p m (opened_meta s) = opened_meta s"
    using 0(3) by (simp add: dict_setitem_def dict_get_def update_triv)
  then show ?case by simp
next
  case (Suc n)
  let ?m1 = "m\<lparr>ac := ac m + 1\<rparr>"
  let ?s1 = "s\<lparr>opened_meta := dict_setitem p ?m1 (opened_meta s)\<rparr>"
  have hit: "is_hit w p s = Inr True" using Suc.prems(2-4) by (rule is_hit_cached)
  have one: "load_state w p s = ?s1"
    using loadFile_hit [OF Suc.prems(1) hit Suc.prems(3) Suc.prems(2)] by (simp add: load_state_def)
  have f1: "dict_get (opened_files ?s1) p = Some v" using Suc.prems(2) by simp
  have m1: "dict_get (opened_meta ?s1) p = Some ?m1" by (simp add: dict_get_setitem)
  have t1: "getmtime w p = Inr (mtime ?m1)" using Suc.prems(4) by simp
  have "run_calls (replicate n (w, p)) ?s1 =
      ?s1\<lparr>opened_meta := dict_setitem p (?m1\<lparr>ac := ac ?m1 + int n\<rparr>) (opened_meta ?s1)\<rparr>"
    using Suc.IH [OF Suc.prems(1) f1 m1 t1] .
  then show ?case by (simp add: one dict_setitem_def add.assoc)
qed

text \<open>
  C7. \<open>n\<close> consecutive \<open>_loadFile\<close> calls on a cached path whose file keeps its mtime
  leave the payloads, the entry's mtime, every other entry and the key order unchanged and
  raise the entry's access count by exactly \<open>n\<close>; the next call still returns the same
  payload.
\<close>

theorem hits_idempotent:
  assumes "path_exists w p"
    and "dict_get (opened_files s) p = Some v"
    and "dict_get (opened_meta s) p = Some m"
    and "getmtime w p = Inr (mtime m)"
  shows "run_calls (replicate n (w, p)) s =
           s\<lparr>opened_meta := dict_setitem p (m\<lparr>ac := ac m + int n\<rparr>) (opened_meta s)\<rparr> \<and>
         opened_files (run_calls (replicate n (w, p)) s) = opened_files s \<and>
         dict_get (opened_meta (run_calls (replicate n (w, p)) s)) p =
           Some \<lparr>mtime = mtime m, ac = ac m + int n\<rparr> \<and>
         (\<forall>q. q \<noteq> p \<longrightarrow>
            dict_get (opened_meta (run_calls (replicate n (w, p)) s)) q = dict_get (opened_meta s) q) \<and>
         dict_keys (opened_meta (run_calls (replicate n (w, p)) s)) = dict_keys (opened_meta s) \<and>
         fst (loadFile w p (run_calls (replicate n (w, p)) s)) = Inr (Some v)"
proof -
  let ?m = "m\<lparr>ac := ac m + int n\<rparr>"
  let ?s = "s\<lparr>opened_meta := dict_setitem p ?m (opened_meta s)\<rparr>"
  have a: "run_calls (replicate n (w, p)) s = ?s" using assms by (rule run_hits)
  have inm: "p \<in> set (dict_keys (opened_meta s))" using assms(3) by (rule dict_get_keys)
  have f1: "dict_get (opened_files ?s) p = Some v" using assms(2) by simp
  have m1: "dict_get (opened_meta ?s) p = Some ?m" by (simp add: dict_get_setitem)
  have t1: "getmtime w p = Inr (mtime ?m)" using assms(4) by simp
  have hit: "is_hit w p ?s = Inr True" using f1 m1 t1 by (rule is_hit_cached)
  have g: "fst (loadFile w p ?s) = Inr (Some v)"
    using loadFile_hit [OF assms(1) hit m1 f1] by simp
  show ?thesis
    unfolding a using g inm by (simp add: dict_get_setitem keys_setitem_present)
qed

theorem hits_idempotent_witness:
  "path_exists w0 ''a'' \<and> dict_get (opened_files s_ab) ''a'' = Some ''a'' \<and>
   dict_get (opened_meta s_ab) ''a'' = Some \<lparr>mtime = 7, ac = 2\<rparr> \<and>
   getmtime w0 ''a'' = Inr 7 \<and>
   run_calls (replicate 3 (w0, ''a'')) s_ab =
     \<lparr>opened_files = [(''a'', ''a''), (''b'', ''b'')],
      opened_meta = [(''a'', \<lparr>mtime = 7, ac = 5\<rparr>), (''b'', \<lparr>mtime = 7, ac = 1\<rparr>)],
      total_cached = 2\<rparr>"
  using hits_idempotent [of w0 "''a''" s_ab "''a''" "\<lparr>mtime = 7, ac = 2\<rparr>" 3]
  by (simp add: w0_def s_ab_def dict_get_def dict_setitem_def)

section \<open>Reloads\<close>

lemma dict_get_filter_notin:
  "dict_get (filter (\<lambda>e. fst e \<notin> A) d) k = (if k \<in> A then None else dict_get d k)"
  by (induction d) (auto simp: dict_get_def)

lemma actual_load_fails:
  "read_text w p = Inl e \<or> (\<exists>raw. read_text w p = Inr raw \<and> json_loads w raw = Inl e) \<Longrightarrow>
   actual_load w p s = (Inl e, s)"
  by (auto simp: actual_load_def)

lemma actual_load_succeeds:
  "read_text w p = Inr raw \<Longrightarrow> json_loads w raw = Inr data \<Longrightarrow>
   getmtime_after_read w p = Inr t \<Longrightarrow>
   actual_load w p s =
     (Inr data, s\<lparr>opened_files := dict_setitem p data (opened_files s),
                  opened_meta := dict_setitem p \<lparr>mtime = t, ac = 1\<rparr> (opened_meta s)\<rparr>)"
  by (simp add: actual_load_def)

lemma evict_not_full:
  "int (length (opened_files s)) < total_cached s \<Longrightarrow> evict s = (Inr (), s)"
  by (simp add: evict_def)

text \<open>
  C6. For a path that is cached with a stored mtime different from the one
  \<open>os.path.getmtime\<close> returns at line 129, when the read, the parse and
  \<open>os.path.getmtime\<close> at line 99 succeed, \<open>_loadFile\<close> returns the newly parsed value
  and leaves an entry for the path whose payload is that value, whose mtime is the one read
  at line 99 of this call and whose access count is 1.
\<close>

theorem staleness_correctness:
  assumes "store_ok s" and "path_exists w p"
    and "dict_get (opened_files s) p = Some v"
    and "dict_get (opened_meta s) p = Some m"
    and "getmtime w p = Inr t" and "t \<noteq> mtime m"
    and "read_text w p = Inr raw" and "json_loads w raw = Inr data"
    and "getmtime_after_read w p = Inr t'"
  shows "fst (loadFile w p s) = Inr (Some data) \<and>
         dict_get (opened_files (load_state w p s)) p = Some data \<and>
         dict_get (opened_meta (load_state w p s)) p = Some \<lparr>mtime = t', ac = 1\<rparr>"
proof -
  have miss: "is_hit w p s = Inr False" using assms(3-6) by (rule is_hit_stale)
  show ?thesis
    by (simp add: load_state_def loadFile_miss [OF assms(2) miss assms(1)]
        actual_load_succeeds [OF assms(7-9)] dict_get_setitem)
qed

theorem staleness_correctness_witness:
  "store_ok s_ab \<and> path_exists w1 ''a'' \<and> dict_get (opened_files s_ab) ''a'' = Some ''a'' \<and>
   dict_get (opened_meta s_ab) ''a'' = Some \<lparr>mtime = 7, ac = 2\<rparr> \<and>
   getmtime w1 ''a'' = Inr 9 \<and> read_text w1 ''a'' = Inr ''a!'' \<and>
   json_loads w1 ''a!'' = Inr ''a!'' \<and> getmtime_after_read w1 ''a'' = Inr 9 \<and>
   fst (loadFile w1 ''a'' s_ab) = Inr (Some ''a!'') \<and>
   dict_get (opened_files (load_state w1 ''a'' s_ab)) ''a'' = Some ''a!'' \<and>
   dict_get (opened_meta (load_state w1 ''a'' s_ab)) ''a'' = Some \<lparr>mtime = 9, ac = 1\<rparr>"
  using staleness_correctness
    [of s_ab w1 "''a''" "''a''" "\<lparr>mtime = 7, ac = 2\<rparr>" 9 "''a!''" "''a!''" 9]
  by (simp add: w1_def s_ab_def store_ok_def dict_keys_def dict_get_def)

text \<open>
  C2, as the code has it. \<open>__real_load__\<close> evicts before it opens the file. When the
  read or the parse fails on the reload path, the error reaches the caller and no entry is
  inserted or modified, but the eviction has been done: the store is left as the eviction
  block left it, that is, without the entries it selected and otherwise as before. The
  store is exactly as before the call when it held fewer entries than its capacity, and,
  for a capacity of at least 1, only then.
\<close>

theorem failed_load_state:
  assumes "store_ok s" and "path_exists w p" and "is_hit w p s = Inr False"
    and "read_text w p = Inl e \<or> (\<exists>raw. read_text w p = Inr raw \<and> json_loads w raw = Inl e)"
  shows "loadFile w p s = (Inl e, snd (evict s)) \<and>
         snd (evict s) =
           s\<lparr>opened_files := filter (\<lambda>x. fst x \<notin> victims s) (opened_files s),
             opened_meta := filter (\<lambda>x. fst x \<notin> victims s) (opened_meta s)\<rparr> \<and>
         (int (length (opened_files s)) < total_cached s \<longrightarrow> loadFile w p s = (Inl e, s)) \<and>
         (1 \<le> total_cached s \<longrightarrow>
            (snd (loadFile w p s) = s) = (int (length (opened_files s)) < total_cached s))"
proof -
  have a: "loadFile w p s = (Inl e, snd (evict s))"
    by (simp add: loadFile_miss [OF assms(2,3,1)] actual_load_fails [OF assms(4)])
  have b: "snd (evict s) =
           s\<lparr>opened_files := filter (\<lambda>x. fst x \<notin> victims s) (opened_files s),
             opened_meta := filter (\<lambda>x. fst x \<notin> victims s) (opened_meta s)\<rparr>"
    by (simp add: evict_ok [OF assms(1)])
  have c: "int (length (opened_files s)) < total_cached s \<longrightarrow> loadFile w p s = (Inl e, s)"
    using a by (simp add: evict_not_full)
  have d: "1 \<le> total_cached s \<longrightarrow>
            (snd (loadFile w p s) = s) = (int (length (opened_files s)) < total_cached s)"
  proof
    assume cap: "1 \<le> total_cached s"
    show "(snd (loadFile w p s) = s) = (int (length (opened_files s)) < total_cached s)"
    proof (cases "int (length (opened_files s)) < total_cached s")
      case True
      then show ?thesis using c by simp
    next
      case False
      then have full: "total_cached s \<le> int (length (opened_files s))" by simp
      have "int (length (opened_files (snd (evict s)))) = total_cached s - 1"
        using assms(1) cap full by (rule length_evict_full)
      then have "length (opened_files (snd (evict s))) \<noteq> length (opened_files s)"
        using full by auto
      then have "snd (evict s) \<noteq> s" by auto
      then show ?thesis using False a by simp
    qed
  qed
  from a b c d show ?thesis by blast
qed

theorem failed_load_state_witness:
  "store_ok s_ab \<and> path_exists w_bad ''c'' \<and> is_hit w_bad ''c'' s_ab = Inr False \<and>
   read_text w_bad ''c'' = Inr ''{'' \<and> json_loads w_bad ''{'' = Inl ParseError \<and>
   1 \<le> total_cached s_ab \<and> \<not> int (length (opened_files s_ab)) < total_cached s_ab \<and>
   loadFile w_bad ''c'' s_ab = (Inl ParseError, snd (evict s_ab)) \<and>
   snd (evict s_ab) =
     \<lparr>opened_files = [(''a'', ''a'')], opened_meta = [(''a'', \<lparr>mtime = 7, ac = 2\<rparr>)],
      total_cached = 2\<rparr> \<and>
   snd (loadFile w_bad ''c'' s_ab) \<noteq> s_ab"
  using failed_load_state [of s_ab w_bad "''c''" ParseError]
  by (simp add: w_bad_def s_ab_def store_ok_def victims_def load_defs)

text \<open>
  C2 as stated fails: with capacity 1 and \<open>a\<close> cached, loading \<open>b\<close>, whose contents do
  not parse, raises \<open>ParseError\<close> and leaves the store empty.
\<close>

theorem failed_load_changes_store:
  "store_ok s_a \<and> path_exists w_bad ''b'' \<and> read_text w_bad ''b'' = Inr ''{'' \<and>
   json_loads w_bad ''{'' = Inl ParseError \<and>
   loadFile w_bad ''b'' s_a = (Inl ParseError, empty_store 1) \<and>
   snd (loadFile w_bad ''b'' s_a) \<noteq> s_a"
  by (simp add: w_bad_def s_a_def store_ok_def load_defs)

text \<open>
  C9, as the code has it. When a reload of a cached path fails in the read or the parse, no
  new payload is installed for the path. Its old entry (payload, mtime and access count) is
  intact unless the eviction block of this call selected the path, which can only happen
  when the store was full; in that case the path is no longer cached.
\<close>

theorem failed_reload_entry:
  assumes "store_ok s" and "path_exists w p" and "dict_contains p (opened_files s)"
    and "is_hit w p s = Inr False"
    and "read_text w p = Inl e \<or> (\<exists>raw. read_text w p = Inr raw \<and> json_loads w raw = Inl e)"
  shows "fst (loadFile w p s) = Inl e \<and>
         dict_get (opened_files (load_state w p s)) p =
           (if p \<in> victims s then None else dict_get (opened_files s) p) \<and>
         dict_get (opened_meta (load_state w p s)) p =
           (if p \<in> victims s then None else dict_get (opened_meta s) p) \<and>
         (int (length (opened_files s)) < total_cached s \<longrightarrow> p \<notin> victims s)"
proof -
  have a: "loadFile w p s = (Inl e, snd (evict s))"
    by (simp add: loadFile_miss [OF assms(2,4,1)] actual_load_fails [OF assms(5)])
  show ?thesis
    by (simp add: load_state_def a evict_ok [OF assms(1)] dict_get_filter_notin) (simp add: victims_def)
qed

theorem failed_reload_entry_witness:
  "store_ok s_ab \<and> path_exists w_bad ''a'' \<and> dict_contains ''a'' (opened_files s_ab) \<and>
   is_hit w_bad ''a'' s_ab = Inr False \<and> read_text w_bad ''a'' = Inr ''{'' \<and>
   json_loads w_bad ''{'' = Inl ParseError \<and> ''a'' \<notin> victims s_ab \<and>
   fst (loadFile w_bad ''a'' s_ab) = Inl ParseError \<and>
   dict_get (opened_files (load_state w_bad ''a'' s_ab)) ''a'' = Some ''a'' \<and>
   dict_get (opened_meta (load_state w_bad ''a'' s_ab)) ''a'' = Some \<lparr>mtime = 7, ac = 2\<rparr>"
  using failed_reload_entry [of s_ab w_bad "''a''" ParseError]
  by (simp add: w_bad_def s_ab_def store_ok_def victims_def load_defs)

text \<open>
  C9 as stated fails: with capacity 1 and \<open>a\<close> cached at mtime 7, a reload of \<open>a\<close> at
  mtime 8 whose contents do not parse raises \<open>ParseError\<close> after \<open>a\<close> has been evicted.
\<close>

theorem failed_reload_drops_entry:
  "store_ok s_a \<and> path_exists w_bad ''a'' \<and>
   dict_get (opened_files s_a) ''a'' = Some ''a'' \<and>
   dict_get (opened_meta s_a) ''a'' = Some \<lparr>mtime = 7, ac = 1\<rparr> \<and>
   is_hit w_bad ''a'' s_a = Inr False \<and> read_text w_bad ''a'' = Inr ''{'' \<and>
   json_loads w_bad ''{'' = Inl ParseError \<and>
   fst (loadFile w_bad ''a'' s_a) = Inl ParseError \<and>
   dict_get (opened_files (snd (loadFile w_bad ''a'' s_a))) ''a'' = None \<and>
   dict_get (opened_meta (snd (loadFile w_bad ''a'' s_a))) ''a'' = None"
  by (simp add: w_bad_def s_a_def store_ok_def load_defs)

section \<open>The two dictionaries stay in step\<close>





section \<open>Which entries are evicted\<close>

text \<open>
  The position of a key is its insertion order: assigning to a key that is present moves
  nothing, a new key goes last, and removing entries keeps the others in their order.
\<close>

lemma dict_index_setitem_old:
  "q \<in> set (dict_keys d) \<Longrightarrow> dict_index q (dict_setitem k v d) = dict_index q d"
  by (induction d) (auto simp: dict_keys_def dict_setitem_def dict_index_Cons)

lemma dict_index_setitem_new:
  "k \<notin> set (dict_keys d) \<Longrightarrow> dict_index k (dict_setitem k v d) = length d"
  by (induction d) (auto simp: dict_keys_def dict_setitem_def dict_index_Cons dict_index_def)

lemma dict_index_filter_mono:
  "P a \<Longrightarrow> P b \<Longrightarrow> a \<in> set d \<Longrightarrow> b \<in> set d \<Longrightarrow> distinct (map fst d) \<Longrightarrow>
   dict_index (fst a) d < dict_index (fst b) d \<Longrightarrow>
   dict_index (fst a) (filter P d) < dict_index (fst b) (filter P d)"
proof (induction d)
  case Nil
  then show ?case by simp
next
  case (Cons x d)
  have nx: "\<And>y. y \<in> set d \<Longrightarrow> fst y \<noteq> fst x" using Cons.prems(5) by (metis distinct.simps(2) imageI list.simps(9) set_map)
  show ?case
  proof (cases "fst x = fst a")
    case True
    then have "a = x" using Cons.prems(3) nx by (metis set_ConsD)
    moreover have "fst b \<noteq> fst x" using Cons.prems(6) True by (auto simp: dict_index_Cons split: if_splits)
    ultimately show ?thesis using Cons.prems(1) by (simp add: dict_index_Cons)
  next
    case False
    then have a: "a \<in> set d" using Cons.prems(3) by auto
    have fb: "fst x \<noteq> fst b" using Cons.prems(6) False by (auto simp: dict_index_Cons split: if_splits)
    then have b: "b \<in> set d" using Cons.prems(4) by auto
    have "dict_index (fst a) d < dict_index (fst b) d"
      using Cons.prems(6) False fb by (simp add: dict_index_Cons)
    then have "dict_index (fst a) (filter P d) < dict_index (fst b) (filter P d)"
      using Cons.IH Cons.prems(1,2,5) a b by simp
    then show ?thesis using False fb by (simp add: dict_index_Cons)
  qed
qed






section \<open>The scenario with capacity 2\<close>

text \<open>
  C8. With capacity 2, an empty store and files \<open>a\<close>, \<open>b\<close>, \<open>c\<close> that exist, keep
  their mtime, read and parse, the calls \<open>a, a, b, c, b\<close> give in turn the stores \<open>{a: ac=1}\<close>,
  \<open>{a: ac=2}\<close>, \<open>{a: ac=2, b: ac=1}\<close>, \<open>{a: ac=2, c: ac=1}\<close> and
  \<open>{a: ac=2, b: ac=1}\<close>.
\<close>

theorem scenario_capacity_two:
  assumes "path_exists w ''a''" and "path_exists w ''b''" and "path_exists w ''c''"
    and "getmtime w ''a'' = Inr ta" and "getmtime_after_read w ''a'' = Inr ta"
    and "getmtime w ''b'' = Inr tb" and "getmtime_after_read w ''b'' = Inr tb"
    and "getmtime w ''c'' = Inr tc" and "getmtime_after_read w ''c'' = Inr tc"
    and "read_text w ''a'' = Inr ra" and "json_loads w ra = Inr va"
    and "read_text w ''b'' = Inr rb" and "json_loads w rb = Inr vb"
    and "read_text w ''c'' = Inr rc" and "json_loads w rc = Inr vc"
  shows "run_calls [(w, ''a'')] (empty_store 2) =
           \<lparr>opened_files = [(''a'', va)],
            opened_meta = [(''a'', \<lparr>mtime = ta, ac = 1\<rparr>)], total_cached = 2\<rparr> \<and>
         run_calls [(w, ''a''), (w, ''a'')] (empty_store 2) =
           \<lparr>opened_files = [(''a'', va)],
            opened_meta = [(''a'', \<lparr>mtime = ta, ac = 2\<rparr>)], total_cached = 2\<rparr> \<and>
         run_calls [(w, ''a''), (w, ''a''), (w, ''b'')] (empty_store 2) =
           \<lparr>opened_files = [(''a'', va), (''b'', vb)],
            opened_meta = [(''a'', \<lparr>mtime = ta, ac = 2\<rparr>),
                           (''b'', \<lparr>mtime = tb, ac = 1\<rparr>)], total_cached = 2\<rparr> \<and>
         run_calls [(w, ''a''), (w, ''a''), (w, ''b''), (w, ''c'')] (empty_store 2) =
           \<lparr>opened_files = [(''a'', va), (''c'', vc)],
            opened_meta = [(''a'', \<lparr>mtime = ta, ac = 2\<rparr>),
                           (''c'', \<lparr>mtime = tc, ac = 1\<rparr>)], total_cached = 2\<rparr> \<and>
         run_calls [(w, ''a''), (w, ''a''), (w, ''b''), (w, ''c''), (w, ''b'')] (empty_store 2) =
           \<lparr>opened_files = [(''a'', va), (''b'', vb)],
            opened_meta = [(''a'', \<lparr>mtime = ta, ac = 2\<rparr>),
                           (''b'', \<lparr>mtime = tb, ac = 1\<rparr>)], total_cached = 2\<rparr>"
  using assms by (simp add: load_defs)

theorem scenario_capacity_two_witness:
  "path_exists w0 ''a'' \<and> path_exists w0 ''b'' \<and> path_exists w0 ''c'' \<and>
   getmtime w0 ''a'' = Inr 7 \<and> getmtime_after_read w0 ''a'' = Inr 7 \<and>
   getmtime w0 ''b'' = Inr 7 \<and> getmtime_after_read w0 ''b'' = Inr 7 \<and>
   getmtime w0 ''c'' = Inr 7 \<and> getmtime_after_read w0 ''c'' = Inr 7 \<and>
   read_text w0 ''a'' = Inr ''a'' \<and> json_loads w0 ''a'' = Inr ''a'' \<and>
   read_text w0 ''b'' = Inr ''b'' \<and> json_loads w0 ''b'' = Inr ''b'' \<and>
   read_text w0 ''c'' = Inr ''c'' \<and> json_loads w0 ''c'' = Inr ''c'' \<and>
   run_calls [(w0, ''a''), (w0, ''a''), (w0, ''b''), (w0, ''c''), (w0, ''b'')] (empty_store 2) =
     \<lparr>opened_files = [(''a'', ''a''), (''b'', ''b'')],
      opened_meta = [(''a'', \<lparr>mtime = 7, ac = 2\<rparr>), (''b'', \<lparr>mtime = 7, ac = 1\<rparr>)],
      total_cached = 2\<rparr>"
  using scenario_capacity_two
    [of w0 7 7 7 "''a''" "''a''" "''b''" "''b''" "''c''" "''c''"]
  by (simp add: w0_def load_defs)

end
